theory Spec2Isabelle
  imports Complex_Main "HOL-Library.Word"
begin

unbundle bit_operations_syntax

section \<open>Machine types\<close>

text \<open>
  \<open>int64\<close> and \<open>uint64\<close> are both 64-bit words; what differs is how a value is read
  (\<open>sint\<close> or \<open>uint\<close>) and which comparison and division the source applies to it.
  Arithmetic on words wraps around.
\<close>

type_synonym int64 = "64 word"
type_synonym uint64 = "64 word"
type_synonym int32 = "32 word"

subsection \<open>The values of type double that the code produces\<close>

text \<open>
  A finite double is a rational number; doubles are modelled by their exact value in
  \<open>real\<close>, and every operation that rounds is followed by \<open>round_to_double\<close>: rounding to
  53 significant bits, ties to even (the IEEE 754 default). The exponent range is left
  out: every double computed here comes from 64-bit integers, whose magnitudes and
  quotients lie between \<open>2^-63\<close> and \<open>2^64\<close>.
\<close>

fun bit_length :: "nat \<Rightarrow> nat" where
  "bit_length n = (if n = 0 then 0 else Suc (bit_length (n div 2)))"

declare bit_length.simps [simp del]

definition pow2 :: "int \<Rightarrow> real" where
  "pow2 e = (if 0 \<le> e then 2 ^ nat e else 1 / 2 ^ nat (- e))"

definition floor_log2 :: "real \<Rightarrow> int" where
  "floor_log2 q =
     (if 1 \<le> q then int (bit_length (nat \<lfloor>q\<rfloor>)) - 1
      else - int (bit_length (nat (\<lceil>1 / q\<rceil> - 1))))"

definition round_half_even :: "real \<Rightarrow> int" where
  "round_half_even q =
     (let f = \<lfloor>q\<rfloor>; r = q - of_int f
      in if r < 1 / 2 then f
         else if 1 / 2 < r then f + 1
         else if even f then f else f + 1)"

definition round_to_double :: "real \<Rightarrow> real" where
  "round_to_double q =
     (if q = 0 then 0
      else let e = floor_log2 \<bar>q\<bar> - 52;
               m = round_half_even (\<bar>q\<bar> / pow2 e)
           in sgn q * of_int m * pow2 e)"

text \<open>\<open>static_cast<double>(x)\<close> for an \<open>int64\<close> \<open>x\<close>.\<close>

definition int64_to_double :: "int64 \<Rightarrow> real" where
  "int64_to_double x = round_to_double (of_int (sint x))"

text \<open>
  Division of doubles. A zero divisor gives no finite double (an infinity or a NaN):
  \<open>None\<close>.
\<close>

definition double_div :: "real \<Rightarrow> real \<Rightarrow> real option" where
  "double_div a b = (if b = 0 then None else Some (round_to_double (a / b)))"

text \<open>
  The conversion of a double to \<open>int64\<close> truncates towards zero; a value that does not
  fit has no defined result (\<open>None\<close>).
\<close>

definition truncate_real :: "real \<Rightarrow> int" where
  "truncate_real q = (if 0 \<le> q then \<lfloor>q\<rfloor> else \<lceil>q\<rceil>)"

definition double_to_int64 :: "real \<Rightarrow> int64 option" where
  "double_to_int64 d =
     (let t = truncate_real d
      in if - (2 ^ 63) \<le> t \<and> t < 2 ^ 63 then Some (word_of_int t) else None)"


definition double_mul :: "real \<Rightarrow> real \<Rightarrow> real" where
  "double_mul a b = round_to_double (a * b)"

section \<open>Status values and fatal failures\<close>

text \<open>
  A \<open>Status\<close> is what a function returns to its caller. The message of an error is kept
  as the list of the pieces handed to \<open>errors::InvalidArgument\<close>. A \<open>fatal\<close> failure ends
  the process: a failed \<open>DCHECK\<close> of a debug build, or a conversion with no defined result.
\<close>

datatype msg_part = Str string | Num int64

datatype Status = OK | InvalidArgument "msg_part list" | NotFound "msg_part list"

datatype fatal = CheckFailed | UndefinedConversion

section \<open>model\_dataset\_op.cc\<close>

text \<open>
  The model is of the file as compiled where \<^verbatim>\<open>IS_MOBILE_PLATFORM\<close> is not defined;
  elsewhere the op is replaced by one that hands its input on.
\<close>

subsection \<open>Constants\<close>

text \<open>
  Modelled from the spec: the constants of \<open>EnvTime\<close> and the attribute names, which are
  declared outside the files at hand. The ceiling of the period is 60,000 milliseconds, so
  \<open>kSecondsToMillis\<close> is 1000; \<open>kMillisToMicros\<close>, the microseconds of a millisecond,
  is 1000; the options are named \<open>algorithm\<close>, \<open>cpu_budget\<close> and \<open>ram_budget\<close>.
\<close>

definition kSecondsToMillis :: uint64 where
  "kSecondsToMillis = 1000"

definition kMillisToMicros :: uint64 where
  "kMillisToMicros = 1000"

definition kOptimizationPeriodThresholdMs :: int64 where
  "kOptimizationPeriodThresholdMs = 60 * kSecondsToMillis"

definition kRamBudgetShare :: real where
  "kRamBudgetShare = 1 / 2"

definition kAlgorithm :: string where
  "kAlgorithm = ''algorithm''"

definition kCpuBudget :: string where
  "kCpuBudget = ''cpu_budget''"

definition kRamBudget :: string where
  "kRamBudget = ''ram_budget''"

subsection \<open>The op kernel and its dataset\<close>

text \<open>
  Modelled from the spec: the enumeration \<open>model::AutotuneAlgorithm\<close>, declared outside
  the files at hand, with hill-climb the default algorithm. A value of the enumeration is
  kept as the integer it is cast from by \<open>model::AutotuneAlgorithm(algorithm)\<close>;
  \<open>HILL_CLIMB\<close> is its first enumerator.
\<close>

datatype AutotuneAlgorithm = AutotuneAlgorithm int64

definition HILL_CLIMB :: AutotuneAlgorithm where
  "HILL_CLIMB = AutotuneAlgorithm 0"

text \<open>
  The integer attributes of the node under construction, by name. \<open>HasAttr\<close> and
  \<open>GetAttr\<close> belong to the kernel framework, outside the files at hand: \<open>HasAttr\<close>
  says whether the node has the attribute, \<open>GetAttr\<close> returns its value, and an error
  status for an attribute that is not there.
\<close>

type_synonym OpKernelConstruction = "string \<rightharpoonup> int64"

definition HasAttr :: "OpKernelConstruction \<Rightarrow> string \<Rightarrow> bool" where
  "HasAttr ctx name = (ctx name \<noteq> None)"

definition GetAttr :: "OpKernelConstruction \<Rightarrow> string \<Rightarrow> Status + int64" where
  "GetAttr ctx name =
     (case ctx name of
        None \<Rightarrow> Inl (NotFound [Str ''No attr named '', Str name])
      | Some v \<Rightarrow> Inr v)"

record ModelDatasetOp =
  op_algorithm :: AutotuneAlgorithm
  op_cpu_budget :: int64
  op_ram_budget :: int64

text \<open>
  The constructor. \<open>OP_REQUIRES_OK\<close> and \<open>OP_REQUIRES\<close> record the failure status in
  the construction context and return at once: \<open>Inl\<close> of that status, and no kernel.
\<close>

definition ModelDatasetOp_ctor :: "OpKernelConstruction \<Rightarrow> Status + ModelDatasetOp" where
  "ModelDatasetOp_ctor ctx =
     (case (if HasAttr ctx kAlgorithm
            then (case GetAttr ctx kAlgorithm of
                    Inl s \<Rightarrow> Inl s
                  | Inr algorithm \<Rightarrow> Inr (AutotuneAlgorithm algorithm))
            else Inr HILL_CLIMB) of
        Inl s \<Rightarrow> Inl s
      | Inr algorithm \<Rightarrow>
          (case GetAttr ctx kCpuBudget of
             Inl s \<Rightarrow> Inl s
           | Inr cpu_budget \<Rightarrow>
               if \<not> word_sle 0 cpu_budget
               then Inl (InvalidArgument
                      [Str ''CPU budget must be positive but is '', Num cpu_budget, Str ''.''])
               else
                 (case (if HasAttr ctx kRamBudget then GetAttr ctx kRamBudget else Inr 0) of
                    Inl s \<Rightarrow> Inl s
                  | Inr ram_budget \<Rightarrow>
                      if \<not> word_sle 0 ram_budget
                      then Inl (InvalidArgument
                             [Str ''RAM budget must be positive but is '', Num ram_budget,
                              Str ''.''])
                      else Inr \<lparr>op_algorithm = algorithm, op_cpu_budget = cpu_budget,
                                op_ram_budget = ram_budget\<rparr>)))"

text \<open>
  The dataset, without its input dataset and its tracing metadata. Member names are
  written without the trailing underscore of the source (\<open>cpu_budget\<close> for the member
  \<^verbatim>\<open>cpu_budget_\<close>), with a prefix where two classes have a member of the same name.
\<close>

record Dataset =
  ds_algorithm :: AutotuneAlgorithm
  ds_cpu_budget :: int64
  ds_ram_budget :: int64

definition MakeDataset :: "ModelDatasetOp \<Rightarrow> Dataset" where
  "MakeDataset op =
     \<lparr>ds_algorithm = op_algorithm op, ds_cpu_budget = op_cpu_budget op,
      ds_ram_budget = op_ram_budget op\<rparr>"

subsection \<open>The iterator\<close>

text \<open>
  The machine: what \<open>port::NumSchedulableCPUs()\<close> (an \<open>int\<close>) and
  \<open>port::AvailableRam()\<close> (an \<open>int64\<close>) return. Both functions are outside the files at
  hand, so their results are given.
\<close>

record port =
  NumSchedulableCPUs :: int32
  AvailableRam :: int64

datatype Thread = Thread string

record Iterator =
  dataset :: Dataset
  model_thread :: "Thread option"
  metrics_thread :: "Thread option"
  cancelled :: bool
  num_input_events :: int64
  input_time :: int64
  last_output_time :: int64
  cpu_budget :: int64
  ram_budget :: int64

text \<open>
  The constructor. The initialiser of \<open>cpu_budget\<close> chooses between an \<open>int\<close> and an
  \<open>int64\<close>: the result is an \<open>int64\<close>. The initialiser of \<open>ram_budget\<close> chooses between
  the double \<open>kRamBudgetShare * port::AvailableRam()\<close> and the \<open>int64\<close>
  \<open>dataset()->ram_budget\<close>: by the usual arithmetic conversions the conditional
  expression has type double, so the \<open>int64\<close> operand is converted to double as well,
  and the result is converted back to \<open>int64\<close> to initialise the member.
\<close>

definition Iterator_ctor :: "port \<Rightarrow> Dataset \<Rightarrow> fatal + Iterator" where
  "Iterator_ctor p ds =
     (let cpu = (if ds_cpu_budget ds = 0 then scast (NumSchedulableCPUs p)
                 else ds_cpu_budget ds);
          ram = (if ds_ram_budget ds = 0
                 then double_mul kRamBudgetShare (int64_to_double (AvailableRam p))
                 else int64_to_double (ds_ram_budget ds))
      in case double_to_int64 ram of
           None \<Rightarrow> Inl UndefinedConversion
         | Some r \<Rightarrow>
             Inr \<lparr>dataset = ds, model_thread = None, metrics_thread = None,
                  cancelled = False, num_input_events = 0, input_time = 0,
                  last_output_time = 0, cpu_budget = cpu, ram_budget = r\<rparr>)"

text \<open>The destructor sets the flag under the lock and notifies the condition variable.\<close>

definition Iterator_dtor :: "Iterator \<Rightarrow> Iterator" where
  "Iterator_dtor it = it\<lparr>cancelled := True\<rparr>"

text \<open>
  \<open>RecordInput\<close>. The flag says whether the build is a debug build: there
  \<open>DCHECK_LE\<close> ends the process when the comparison fails; elsewhere it does nothing.
\<close>

definition RecordInput :: "bool \<Rightarrow> int64 \<Rightarrow> Iterator \<Rightarrow> fatal + Iterator" where
  "RecordInput debug time_nanos it =
     (if last_output_time it \<noteq> 0
      then if debug \<and> \<not> word_sle (last_output_time it) time_nanos
           then Inl CheckFailed
           else Inr (it\<lparr>input_time := input_time it + (time_nanos - last_output_time it),
                        num_input_events := num_input_events it + 1\<rparr>)
      else Inr it)"

definition RecordOutput :: "int64 \<Rightarrow> Iterator \<Rightarrow> Iterator" where
  "RecordOutput time_nanos it = it\<lparr>last_output_time := time_nanos\<rparr>"

text \<open>\<open>SelfInputTime\<close>: \<open>None\<close> would be a division by zero.\<close>

definition SelfInputTime :: "Iterator \<Rightarrow> real option" where
  "SelfInputTime it =
     (if num_input_events it = 0 then Some 0
      else double_div (int64_to_double (input_time it))
             (int64_to_double (num_input_events it)))"

text \<open>
  The iterator context, as far as the iterator uses it: the names of the threads started
  through \<open>StartThread\<close>, in order. \<open>StartThread\<close> belongs to the framework, outside
  the files at hand: it starts a thread of the given name and returns it (never a null
  pointer).
\<close>

record IteratorContext =
  started :: "string list"

definition StartThread :: "IteratorContext \<Rightarrow> string \<Rightarrow> Thread \<times> IteratorContext" where
  "StartThread ctx name = (Thread name, ctx\<lparr>started := started ctx @ [name]\<rparr>)"

definition EnsureModelThreadStarted ::
  "IteratorContext \<Rightarrow> Iterator \<Rightarrow> Status \<times> Iterator \<times> IteratorContext" where
  "EnsureModelThreadStarted ctx it =
     (let (it1, ctx1) =
            (if model_thread it = None
             then (let (t, c) = StartThread ctx ''tf_data_model''
                   in (it\<lparr>model_thread := Some t\<rparr>, c))
             else (it, ctx));
          (it2, ctx2) =
            (if metrics_thread it1 = None
             then (let (t, c) = StartThread ctx1 ''tf_data_metrics''
                   in (it1\<lparr>metrics_thread := Some t\<rparr>, c))
             else (it1, ctx1))
      in (OK, it2, ctx2))"

text \<open>
  \<open>GetNextInternal\<close>. A call comes with what it reads from outside: the clock before
  the input is asked, the status the input iterator returns, and the clock after.
\<close>

record call =
  now_nanos_in :: uint64
  input_status :: Status
  now_nanos_out :: uint64

definition GetNextInternal ::
  "bool \<Rightarrow> call \<Rightarrow> Iterator \<Rightarrow> IteratorContext \<Rightarrow> fatal + (Status \<times> Iterator \<times> IteratorContext)" where
  "GetNextInternal debug c it ctx =
     (case EnsureModelThreadStarted ctx it of
        (s0, it1, ctx1) \<Rightarrow>
          if s0 \<noteq> OK then Inr (s0, it1, ctx1)
          else (case RecordInput debug (now_nanos_in c) it1 of
                  Inl f \<Rightarrow> Inl f
                | Inr it2 \<Rightarrow> Inr (input_status c, RecordOutput (now_nanos_out c) it2, ctx1)))"

text \<open>A sequence of calls of \<open>GetNextInternal\<close> on one iterator.\<close>

fun GetNext_calls ::
  "bool \<Rightarrow> call list \<Rightarrow> Iterator \<Rightarrow> IteratorContext \<Rightarrow> fatal + (Iterator \<times> IteratorContext)" where
  "GetNext_calls debug [] it ctx = Inr (it, ctx)"
| "GetNext_calls debug (c # cs) it ctx =
     (case GetNextInternal debug c it ctx of
        Inl f \<Rightarrow> Inl f
      | Inr (s, it', ctx') \<Rightarrow> GetNext_calls debug cs it' ctx')"


subsection \<open>The two background threads\<close>

text \<open>
  A thread runs beside the callers of the iterator, so it is modelled by steps. Each step
  is given what the thread reads from outside at that point: the members of the iterator
  as they are then, and the clock. The thread writes no member of the iterator. What it
  calls is collected as a list of actions. A run takes one step for each observation it
  is given; a thread that has returned stays where it is.
\<close>

record observation =
  obs_it :: Iterator
  NowMicros :: uint64

datatype action =
    WaitFor int64
  | CallSelfInputTime "real option"
  | Optimize AutotuneAlgorithm int64 int64 real
  | FlushMetrics
  | PrintMetrics
  | CollectMetrics

text \<open>
  The places of \<open>ModelThread\<close>: before the first reading of the clock; at the test of the
  inner loop, the lock held; inside \<open>wait_for\<close>; after the lock is released, before the
  pass; after \<open>Optimize\<close> has returned; returned.
\<close>

datatype ModelThread_pc =
  MT_Start | MT_Check | MT_Wait | MT_Optimize | MT_Optimized | MT_Returned

record ModelThread_locals =
  mt_pc :: ModelThread_pc
  last_optimization_ms :: int64
  optimization_period_ms :: int64
  mt_current_time_ms :: int64

definition ModelThread_init :: ModelThread_locals where
  "ModelThread_init =
     \<lparr>mt_pc = MT_Start, last_optimization_ms = 0, optimization_period_ms = 10,
      mt_current_time_ms = 0\<rparr>"

text \<open>\<open>std::min\<close> on \<open>int64\<close>.\<close>

definition std_min :: "int64 \<Rightarrow> int64 \<Rightarrow> int64" where
  "std_min a b = (if word_sless b a then b else a)"

definition next_optimization_period_ms :: "int64 \<Rightarrow> int64" where
  "next_optimization_period_ms p =
     (if p \<noteq> kOptimizationPeriodThresholdMs
      then std_min (push_bit 1 p) kOptimizationPeriodThresholdMs
      else p)"

definition ModelThread_step ::
  "observation \<Rightarrow> ModelThread_locals \<Rightarrow> action list \<times> ModelThread_locals" where
  "ModelThread_step ob l =
     (case mt_pc l of
        MT_Start \<Rightarrow>
          ([], l\<lparr>mt_current_time_ms := NowMicros ob div kMillisToMicros, mt_pc := MT_Check\<rparr>)
      | MT_Check \<Rightarrow>
          if \<not> cancelled (obs_it ob) \<and>
             word_sless (mt_current_time_ms l) (last_optimization_ms l + optimization_period_ms l)
          then ([WaitFor (last_optimization_ms l + optimization_period_ms l
                           - mt_current_time_ms l)],
                l\<lparr>mt_pc := MT_Wait\<rparr>)
          else if cancelled (obs_it ob) then ([], l\<lparr>mt_pc := MT_Returned\<rparr>)
          else ([], l\<lparr>mt_pc := MT_Optimize\<rparr>)
      | MT_Wait \<Rightarrow>
          ([], l\<lparr>mt_current_time_ms := NowMicros ob div kMillisToMicros, mt_pc := MT_Check\<rparr>)
      | MT_Optimize \<Rightarrow>
          ([CallSelfInputTime (SelfInputTime (obs_it ob)),
            Optimize (ds_algorithm (dataset (obs_it ob))) (cpu_budget (obs_it ob))
              (ram_budget (obs_it ob)) 0],
           l\<lparr>optimization_period_ms := next_optimization_period_ms (optimization_period_ms l),
             mt_pc := MT_Optimized\<rparr>)
      | MT_Optimized \<Rightarrow>
          ([FlushMetrics],
           l\<lparr>mt_current_time_ms := NowMicros ob div kMillisToMicros,
             last_optimization_ms := NowMicros ob div kMillisToMicros,
             mt_pc := MT_Check\<rparr>)
      | MT_Returned \<Rightarrow> ([], l))"

fun ModelThread_run ::
  "observation list \<Rightarrow> ModelThread_locals \<Rightarrow> action list \<times> ModelThread_locals" where
  "ModelThread_run [] l = ([], l)"
| "ModelThread_run (ob # obs) l =
     (case ModelThread_step ob l of
        (as, l') \<Rightarrow> (case ModelThread_run obs l' of (bs, l'') \<Rightarrow> (as @ bs, l'')))"

text \<open>
  The places of \<open>MetricsThread\<close>: before the first reading of the clock; at the test of
  the inner loop, the lock held; inside \<open>wait_for\<close>; after the lock is released, where
  \<open>cancelled\<close> is read once more; returned. The thread also keeps a counter in the
  resource manager: \<open>None\<close> until the resource is created.
\<close>

datatype MetricsThread_pc =
  MX_Start | MX_Check | MX_Wait | MX_Unlocked | MX_Returned

record MetricsThread_locals =
  mx_pc :: MetricsThread_pc
  last_recording_time_ms :: int64
  recording_period_ms :: int64
  mx_current_time_ms :: int64
  my_resource :: "int32 option"

definition MetricsThread_init :: MetricsThread_locals where
  "MetricsThread_init =
     \<lparr>mx_pc = MX_Start, last_recording_time_ms = 0, recording_period_ms = 10,
      mx_current_time_ms = 0, my_resource = None\<rparr>"

definition MetricsThread_step ::
  "observation \<Rightarrow> MetricsThread_locals \<Rightarrow> action list \<times> MetricsThread_locals" where
  "MetricsThread_step ob l =
     (case mx_pc l of
        MX_Start \<Rightarrow>
          ([], l\<lparr>mx_current_time_ms := NowMicros ob div kMillisToMicros, mx_pc := MX_Check\<rparr>)
      | MX_Check \<Rightarrow>
          if \<not> cancelled (obs_it ob) \<and>
             word_sless (mx_current_time_ms l) (last_recording_time_ms l + recording_period_ms l)
          then ([WaitFor (last_recording_time_ms l + recording_period_ms l
                           - mx_current_time_ms l)],
                l\<lparr>mx_pc := MX_Wait\<rparr>)
          else ([], l\<lparr>mx_pc := MX_Unlocked\<rparr>)
      | MX_Wait \<Rightarrow>
          ([], l\<lparr>mx_current_time_ms := NowMicros ob div kMillisToMicros, mx_pc := MX_Check\<rparr>)
      | MX_Unlocked \<Rightarrow>
          if cancelled (obs_it ob) then ([], l\<lparr>mx_pc := MX_Returned\<rparr>)
          else ([FlushMetrics, PrintMetrics, CollectMetrics],
                l\<lparr>last_recording_time_ms := NowMicros ob div kMillisToMicros,
                  mx_current_time_ms := NowMicros ob div kMillisToMicros,
                  my_resource := (case my_resource l of None \<Rightarrow> Some 0 | Some c \<Rightarrow> Some (c + 1)),
                  mx_pc := MX_Check\<rparr>)
      | MX_Returned \<Rightarrow> ([], l))"

fun MetricsThread_run ::
  "observation list \<Rightarrow> MetricsThread_locals \<Rightarrow> action list \<times> MetricsThread_locals" where
  "MetricsThread_run [] l = ([], l)"
| "MetricsThread_run (ob # obs) l =
     (case MetricsThread_step ob l of
        (as, l') \<Rightarrow> (case MetricsThread_run obs l' of (bs, l'') \<Rightarrow> (as @ bs, l'')))"

text \<open>The passes in a list of actions, and the actions that change or export the model.\<close>

fun is_Optimize :: "action \<Rightarrow> bool" where
  "is_Optimize (Optimize a c r t) = True"
| "is_Optimize _ = False"

fun is_Optimize_or_Flush :: "action \<Rightarrow> bool" where
  "is_Optimize_or_Flush (Optimize a c r t) = True"
| "is_Optimize_or_Flush FlushMetrics = True"
| "is_Optimize_or_Flush _ = False"

definition passes :: "action list \<Rightarrow> nat" where
  "passes as = length (filter is_Optimize as)"

section \<open>service\_cache\_util.cc\<close>

text \<open>
  The writer holds the target directory and an asynchronous writer. The asynchronous
  writer is declared elsewhere: its state is of any type \<open>'w\<close>, and its \<open>Write\<close>, which
  returns nothing, is a function on that state. The callback given to it at construction
  takes the status it reports and returns.
\<close>

record 'w Writer =
  target_dir :: string
  async_writer :: 'w

definition Writer_done :: "Status \<Rightarrow> 'w Writer \<Rightarrow> 'w Writer" where
  "Writer_done s w = w"

definition Writer_Write ::
  "('t list \<Rightarrow> 'w \<Rightarrow> 'w) \<Rightarrow> 't list \<Rightarrow> 'w Writer \<Rightarrow> Status \<times> 'w Writer" where
  "Writer_Write AsyncWriter_Write tensors w =
     (OK, w\<lparr>async_writer := AsyncWriter_Write tensors (async_writer w)\<rparr>)"


text \<open>
  What happens to a writer: \<open>Write\<close> is called, or the asynchronous writer reports a
  status through the callback. A run collects what the calls of \<open>Write\<close> return.
\<close>

datatype 't writer_event = WriteCall "'t list" | DoneCallback Status

fun Writer_run ::
  "('t list \<Rightarrow> 'w \<Rightarrow> 'w) \<Rightarrow> 't writer_event list \<Rightarrow> 'w Writer \<Rightarrow> Status list \<times> 'w Writer" where
  "Writer_run AsyncWriter_Write [] w = ([], w)"
| "Writer_run AsyncWriter_Write (WriteCall tensors # es) w =
     (case Writer_Write AsyncWriter_Write tensors w of
        (s, w') \<Rightarrow> (case Writer_run AsyncWriter_Write es w' of (ss, w'') \<Rightarrow> (s # ss, w'')))"
| "Writer_run AsyncWriter_Write (DoneCallback s # es) w =
     Writer_run AsyncWriter_Write es (Writer_done s w)"

fun is_WriteCall :: "'t writer_event \<Rightarrow> bool" where
  "is_WriteCall (WriteCall tensors) = True"
| "is_WriteCall (DoneCallback s) = False"


section \<open>Notions used in the statements\<close>

text \<open>
  In a sequence of calls, some call reads its input time while the output time recorded
  last, \<open>lo\<close> at the start, is not 0 and is later than that input time.
\<close>

fun input_before_last_output :: "int64 \<Rightarrow> call list \<Rightarrow> bool" where
  "input_before_last_output lo [] = False"
| "input_before_last_output lo (c # cs) =
     ((lo \<noteq> 0 \<and> word_sless (now_nanos_in c) lo) \<or> input_before_last_output (now_nanos_out c) cs)"

text \<open>Repeated calls of \<open>RecordInput\<close> with no \<open>RecordOutput\<close> between them.\<close>

fun RecordInputs :: "bool \<Rightarrow> int64 list \<Rightarrow> Iterator \<Rightarrow> fatal + Iterator" where
  "RecordInputs debug [] it = Inr it"
| "RecordInputs debug (t # ts) it =
     (case RecordInput debug t it of Inl f \<Rightarrow> Inl f | Inr it' \<Rightarrow> RecordInputs debug ts it')"

text \<open>The threads that \<open>EnsureModelThreadStarted\<close> has yet to start.\<close>

definition new_threads :: "Iterator \<Rightarrow> string list" where
  "new_threads it =
     (if model_thread it = None then [''tf_data_model''] else [])
     @ (if metrics_thread it = None then [''tf_data_metrics''] else [])"

text \<open>
  Values for the examples: a machine with 8 processors and 1024 bytes of memory; a
  dataset with both budgets left to the machine; the iterator that the constructor makes
  from them; that iterator later, its threads started, with 2 input events, an input time
  of 30 and the flag as given; an observation of it at a time in microseconds; and a call
  that reads the two given times and gets \<open>OK\<close> from its input.
\<close>

abbreviation example_port :: port where
  "example_port \<equiv> \<lparr>NumSchedulableCPUs = 8, AvailableRam = 1024\<rparr>"

abbreviation example_dataset :: Dataset where
  "example_dataset \<equiv> \<lparr>ds_algorithm = HILL_CLIMB, ds_cpu_budget = 0, ds_ram_budget = 0\<rparr>"

abbreviation example_new_iterator :: Iterator where
  "example_new_iterator \<equiv>
     \<lparr>dataset = example_dataset, model_thread = None, metrics_thread = None,
      cancelled = False, num_input_events = 0, input_time = 0, last_output_time = 0,
      cpu_budget = 8, ram_budget = 512\<rparr>"

abbreviation example_observation :: "bool \<Rightarrow> uint64 \<Rightarrow> observation" where
  "example_observation c t \<equiv>
     \<lparr>obs_it = \<lparr>dataset = example_dataset, model_thread = Some (Thread ''tf_data_model''),
                 metrics_thread = Some (Thread ''tf_data_metrics''), cancelled = c,
                 num_input_events = 2, input_time = 30, last_output_time = 100,
                 cpu_budget = 8, ram_budget = 512\<rparr>,
      NowMicros = t\<rparr>"

abbreviation example_call :: "uint64 \<Rightarrow> uint64 \<Rightarrow> call" where
  "example_call t_in t_out \<equiv>
     \<lparr>now_nanos_in = t_in, input_status = OK, now_nanos_out = t_out\<rparr>"

text \<open>The values of \<open>model_input_time\<close> handed to \<open>Optimize\<close>, in order.\<close>

fun model_input_times :: "action list \<Rightarrow> real list" where
  "model_input_times [] = []"
| "model_input_times (Optimize a c r t # as) = t # model_input_times as"
| "model_input_times (_ # as) = model_input_times as"


section \<open>Construction of the kernel\<close>

text \<open>
  C6. Take a node that has the attribute \<open>cpu_budget\<close>, of value \<open>c\<close>. If \<open>c\<close> is
  negative, or the node has the attribute \<open>ram_budget\<close> and its value is negative, the
  constructor fails with an invalid-argument status, and there is no kernel to make a
  dataset. If neither is negative the constructor succeeds, and the dataset made by the
  kernel carries the two budgets (0 for an absent \<open>ram_budget\<close>).
\<close>

theorem ModelDatasetOp_ctor_budgets:
  assumes "ctx kCpuBudget = Some c"
  shows "((sint c < 0 \<or> (\<exists>r. ctx kRamBudget = Some r \<and> sint r < 0))
           \<longrightarrow> (\<exists>msg. ModelDatasetOp_ctor ctx = Inl (InvalidArgument msg)))
       \<and> ((0 \<le> sint c \<and> (\<forall>r. ctx kRamBudget = Some r \<longrightarrow> 0 \<le> sint r))
           \<longrightarrow> (\<exists>op. ModelDatasetOp_ctor ctx = Inr op
                  \<and> ds_cpu_budget (MakeDataset op) = c
                  \<and> ds_ram_budget (MakeDataset op)
                      = (case ctx kRamBudget of None \<Rightarrow> 0 | Some r \<Rightarrow> r)))"
  using assms
  by (auto simp: ModelDatasetOp_ctor_def HasAttr_def GetAttr_def MakeDataset_def word_sle_eq
      split: option.splits)

theorem ModelDatasetOp_ctor_budgets_witness:
  "(\<exists>msg. ModelDatasetOp_ctor [kCpuBudget \<mapsto> 4, kRamBudget \<mapsto> - 1] = Inl (InvalidArgument msg))
   \<and> (\<exists>op. ModelDatasetOp_ctor [kCpuBudget \<mapsto> 4, kRamBudget \<mapsto> 0] = Inr op
           \<and> ds_cpu_budget (MakeDataset op) = 4 \<and> ds_ram_budget (MakeDataset op) = 0)"
  using ModelDatasetOp_ctor_budgets [of "[kCpuBudget \<mapsto> 4, kRamBudget \<mapsto> - 1]" 4]
    ModelDatasetOp_ctor_budgets [of "[kCpuBudget \<mapsto> 4, kRamBudget \<mapsto> 0]" 4]
  by (auto simp add: kCpuBudget_def kRamBudget_def)

section \<open>The cache writer\<close>

text \<open>
  C9. \<open>Write\<close> returns \<open>OK\<close> whatever the tensors and whatever the asynchronous writer
  does with them; the callback leaves the writer as it was, whatever status it is given;
  so in every sequence of calls of \<open>Write\<close> and of reports through the callback, every
  call of \<open>Write\<close> returns \<open>OK\<close>.
\<close>

theorem Writer_Write_always_OK:
  "fst (Writer_Write AsyncWriter_Write tensors w) = OK
   \<and> Writer_done s w = w
   \<and> fst (Writer_run AsyncWriter_Write es w) = replicate (length (filter is_WriteCall es)) OK"
proof -
  have "fst (Writer_run AsyncWriter_Write es w) = replicate (length (filter is_WriteCall es)) OK"
  proof (induction es arbitrary: w)
    case Nil
    show ?case by simp
  next
    case (Cons e es)
    show ?case using Cons.IH
      by (cases e) (simp_all add: Writer_Write_def split_beta)
  qed
  then show ?thesis by (simp add: Writer_Write_def Writer_done_def)
qed

section \<open>Recording of input and output times\<close>

lemma EnsureModelThreadStarted_frame:
  "EnsureModelThreadStarted ctx it = (s, it', ctx') \<Longrightarrow>
     s = OK \<and> last_output_time it' = last_output_time it \<and> input_time it' = input_time it
     \<and> num_input_events it' = num_input_events it \<and> cpu_budget it' = cpu_budget it
     \<and> ram_budget it' = ram_budget it \<and> cancelled it' = cancelled it
     \<and> dataset it' = dataset it"
  by (auto simp: EnsureModelThreadStarted_def StartThread_def Let_def split: if_splits)

lemma GetNextInternal_fatal_iff:
  "(GetNextInternal debug c it ctx = Inl f)
    = (f = CheckFailed \<and> debug \<and> last_output_time it \<noteq> 0
       \<and> word_sless (now_nanos_in c) (last_output_time it))"
  by (cases "EnsureModelThreadStarted ctx it")
     (auto simp: GetNextInternal_def RecordInput_def word_sle_eq word_sless_alt
           dest!: EnsureModelThreadStarted_frame split: sum.splits)

lemma GetNextInternal_last_output_time:
  "GetNextInternal debug c it ctx = Inr (s, it', ctx') \<Longrightarrow>
     last_output_time it' = now_nanos_out c"
  by (cases "EnsureModelThreadStarted ctx it")
     (auto simp: GetNextInternal_def RecordInput_def RecordOutput_def
           dest!: EnsureModelThreadStarted_frame split: sum.splits if_splits)

lemma GetNext_calls_debug_fails_iff:
  "(GetNext_calls True cs it ctx = Inl CheckFailed)
     = input_before_last_output (last_output_time it) cs"
proof (induction cs arbitrary: it ctx)
  case Nil
  show ?case by simp
next
  case (Cons c cs)
  show ?case
  proof (cases "GetNextInternal True c it ctx")
    case (Inl f)
    then show ?thesis using GetNextInternal_fatal_iff [of True c it ctx f] by simp
  next
    case (Inr r)
    obtain s it' ctx' where r: "r = (s, it', ctx')" by (cases r) auto
    have no: "\<not> (last_output_time it \<noteq> 0
                  \<and> word_sless (now_nanos_in c) (last_output_time it))"
      using Inr GetNextInternal_fatal_iff [of True c it ctx CheckFailed] by auto
    have lo: "last_output_time it' = now_nanos_out c"
      using Inr r GetNextInternal_last_output_time by blast
    show ?thesis using Inr r no lo Cons.IH [of it' ctx'] by auto
  qed
qed

lemma GetNext_calls_release_returns:
  "GetNext_calls False cs it ctx \<noteq> Inl f"
proof (induction cs arbitrary: it ctx)
  case Nil
  show ?case by simp
next
  case (Cons c cs)
  show ?case
  proof (cases "GetNextInternal False c it ctx")
    case (Inl f)
    then show ?thesis using GetNextInternal_fatal_iff [of False c it ctx f] by simp
  next
    case (Inr r)
    then show ?thesis using Cons.IH by (cases r) auto
  qed
qed

text \<open>
  C1, as stated, fails. The claim is that a pair whose output time is earlier than its
  input time is caught by the assertion of a debug build. In a debug build, a first call
  that reads the clock at 10 before asking the input and at 5 after returns: the only
  assertion, in \<open>RecordInput\<close>, compares an input time with the output time recorded
  before it, and there is none yet.
\<close>

theorem output_before_input_not_caught:
  "word_sless (5 :: int64) 10 \<and>
   GetNext_calls True [\<lparr>now_nanos_in = 10, input_status = OK, now_nanos_out = 5\<rparr>]
     \<lparr>dataset = \<lparr>ds_algorithm = HILL_CLIMB, ds_cpu_budget = 0, ds_ram_budget = 0\<rparr>,
       model_thread = None, metrics_thread = None, cancelled = False,
       num_input_events = 0, input_time = 0, last_output_time = 0,
       cpu_budget = 8, ram_budget = 512\<rparr>
     \<lparr>started = []\<rparr>
   = Inr (\<lparr>dataset = \<lparr>ds_algorithm = HILL_CLIMB, ds_cpu_budget = 0, ds_ram_budget = 0\<rparr>,
            model_thread = Some (Thread ''tf_data_model''),
            metrics_thread = Some (Thread ''tf_data_metrics''), cancelled = False,
            num_input_events = 0, input_time = 0, last_output_time = 5,
            cpu_budget = 8, ram_budget = 512\<rparr>,
          \<lparr>started = [''tf_data_model'', ''tf_data_metrics'']\<rparr>)"
  by (simp add: GetNextInternal_def EnsureModelThreadStarted_def StartThread_def
      RecordInput_def RecordOutput_def word_sless_alt)

text \<open>
  C1, amended. In a debug build a sequence of calls ends in a failed assertion exactly
  when some call reads an input time that is earlier than the output time recorded just
  before it, that output time not being 0. In any other build no sequence of calls fails.
\<close>

theorem input_before_last_output_caught:
  "(GetNext_calls True cs it ctx = Inl CheckFailed)
     = input_before_last_output (last_output_time it) cs
   \<and> (\<forall>f. GetNext_calls False cs it ctx \<noteq> Inl f)"
  using GetNext_calls_debug_fails_iff GetNext_calls_release_returns by blast

theorem input_before_last_output_caught_witness:
  "GetNext_calls True
     [example_call 10 20,
      example_call 15 30]
     example_new_iterator
     \<lparr>started = []\<rparr>
   = Inl CheckFailed"
  using input_before_last_output_caught
    [of "[example_call 10 20,
          example_call 15 30]"
        "example_new_iterator"
        "\<lparr>started = []\<rparr>"]
  by (simp add: word_sless_alt)


section \<open>Rounding to double\<close>

lemma bit_length_bounds:
  "0 < n \<Longrightarrow> 2 ^ (bit_length n - 1) \<le> n \<and> n < 2 ^ bit_length n"
proof (induction n rule: bit_length.induct)
  case (1 n)
  show ?case
  proof (cases "n div 2 = 0")
    case True
    with 1 have "n = 1" by presburger
    then show ?thesis by (simp add: bit_length.simps)
  next
    case False
    then have pos: "0 < n div 2" by simp
    have n0: "n \<noteq> 0" using 1 by simp
    from 1(1) [OF n0 pos]
    have ih: "2 ^ (bit_length (n div 2) - 1) \<le> n div 2" "n div 2 < 2 ^ bit_length (n div 2)"
      by auto
    have bl: "bit_length n = Suc (bit_length (n div 2))"
      using n0 by (subst bit_length.simps) simp
    have "0 < bit_length (n div 2)" using pos by (subst bit_length.simps) simp
    then obtain k where k: "bit_length (n div 2) = Suc k"
      by (cases "bit_length (n div 2)") auto
    show ?thesis using ih bl k by auto
  qed
qed

lemma pow2_powi: "pow2 e = 2 powi e"
  by (simp add: pow2_def power_int_def power_one_over inverse_eq_divide)

lemma pow2_pos: "0 < pow2 e"
  by (simp add: pow2_powi)

lemma floor_log2_le:
  assumes "0 < q"
  shows "pow2 (floor_log2 q) \<le> q"
proof (cases "1 \<le> q")
  case True
  let ?n = "nat \<lfloor>q\<rfloor>"
  have npos: "0 < ?n" using True by simp
  have "2 ^ (bit_length ?n - 1) \<le> ?n" using bit_length_bounds [OF npos] by simp
  then have "(2::real) ^ (bit_length ?n - 1) \<le> real ?n"
    by (metis of_nat_le_iff of_nat_numeral of_nat_power)
  also have "real ?n \<le> q" using True by (simp add: of_nat_nat)
  finally have le: "(2::real) ^ (bit_length ?n - 1) \<le> q" .
  have "0 < bit_length ?n" using npos by (subst bit_length.simps) simp
  then have "floor_log2 q = int (bit_length ?n - 1)" using True by (simp add: floor_log2_def)
  then show ?thesis using le by (simp add: pow2_def)
next
  case False
  let ?k = "nat (\<lceil>1 / q\<rceil> - 1)"
  have "1 < 1 / q" using False assms by simp
  then have "2 \<le> \<lceil>1 / q\<rceil>" by linarith
  then have kpos: "0 < ?k" by simp
  have "?k < 2 ^ bit_length ?k" using bit_length_bounds [OF kpos] by simp
  then have "?k + 1 \<le> 2 ^ bit_length ?k"
    by (simp only: Suc_eq_plus1 [symmetric] Suc_le_eq)
  then have "real (?k + 1) \<le> 2 ^ bit_length ?k"
    by (metis of_nat_le_iff of_nat_numeral of_nat_power)
  moreover have "1 / q \<le> real (?k + 1)" using kpos by (simp add: of_nat_nat) linarith
  ultimately have "1 / q \<le> 2 ^ bit_length ?k" by linarith
  then have "1 / 2 ^ bit_length ?k \<le> q" using assms by (simp add: field_simps)
  moreover have "floor_log2 q = - int (bit_length ?k)" using False by (simp add: floor_log2_def)
  ultimately show ?thesis by (auto simp add: pow2_def)
qed

lemma round_half_even_ge_floor: "\<lfloor>x\<rfloor> \<le> round_half_even x"
  by (simp add: round_half_even_def Let_def)

lemma round_to_double_eq_0_iff: "(round_to_double q = 0) = (q = 0)"
proof (cases "q = 0")
  case True
  then show ?thesis by (simp add: round_to_double_def)
next
  case False
  define e where "e = floor_log2 \<bar>q\<bar> - 52"
  have a: "0 < \<bar>q\<bar>" using False by simp
  have "pow2 e \<le> pow2 (floor_log2 \<bar>q\<bar>)"
    unfolding e_def pow2_powi by (rule power_int_increasing) auto
  also have "\<dots> \<le> \<bar>q\<bar>" by (rule floor_log2_le [OF a])
  finally have "1 \<le> \<bar>q\<bar> / pow2 e" using pow2_pos [of e] by simp
  then have "1 \<le> \<lfloor>\<bar>q\<bar> / pow2 e\<rfloor>" by linarith
  then have m: "1 \<le> round_half_even (\<bar>q\<bar> / pow2 e)"
    using round_half_even_ge_floor [of "\<bar>q\<bar> / pow2 e"] by linarith
  have "round_to_double q = sgn q * of_int (round_half_even (\<bar>q\<bar> / pow2 e)) * pow2 e"
    using False by (simp add: round_to_double_def Let_def e_def)
  then show ?thesis using False m pow2_pos [of e] by (auto simp: sgn_eq_0_iff)
qed

lemma int64_to_double_eq_0_iff: "(int64_to_double x = 0) = (x = 0)"
  by (simp add: int64_to_double_def round_to_double_eq_0_iff signed_eq_0_iff)

lemmas double_eval =
  round_to_double_def floor_log2_def round_half_even_def pow2_def int64_to_double_def
  double_to_int64_def truncate_real_def bit_length.simps Let_def double_div_def double_mul_def
  kRamBudgetShare_def

section \<open>The self input time\<close>

lemma SelfInputTime_not_None: "SelfInputTime it \<noteq> None"
  by (simp add: SelfInputTime_def double_div_def int64_to_double_eq_0_iff)

lemma RecordInputs_no_output:
  "last_output_time it = 0 \<Longrightarrow> RecordInputs debug ts it = Inr it"
  by (induction ts) (simp_all add: RecordInput_def)

lemma Iterator_ctor_fresh:
  "Iterator_ctor p ds = Inr it \<Longrightarrow>
     model_thread it = None \<and> metrics_thread it = None \<and> \<not> cancelled it
     \<and> num_input_events it = 0 \<and> input_time it = 0 \<and> last_output_time it = 0
     \<and> dataset it = ds"
  by (auto simp: Iterator_ctor_def Let_def split: option.splits)

text \<open>
  C10. While no output time has been recorded (\<open>last_output_time\<close> is 0), a call of
  \<open>RecordInput\<close>, and so any number of them, returns the iterator as it was. While
  \<open>num_input_events\<close> is 0, \<open>SelfInputTime\<close> returns 0: so it does on a new iterator, after
  any number of calls of \<open>RecordInput\<close> on it, and after its first call of
  \<open>GetNextInternal\<close>, which always returns. \<open>SelfInputTime\<close> never divides by zero.
\<close>

theorem RecordInput_before_first_output:
  "(last_output_time it = 0 \<longrightarrow>
      RecordInput debug t it = Inr it \<and> RecordInputs debug ts it = Inr it)
   \<and> (num_input_events it = 0 \<longrightarrow> SelfInputTime it = Some 0)
   \<and> SelfInputTime it \<noteq> None
   \<and> (Iterator_ctor p ds = Inr it \<longrightarrow>
        RecordInputs debug ts it = Inr it \<and> SelfInputTime it = Some 0
        \<and> (\<exists>it1 ctx1. GetNext_calls debug [c] it ctx = Inr (it1, ctx1)
                       \<and> SelfInputTime it1 = Some 0))"
proof -
  have a: "last_output_time it = 0 \<longrightarrow>
      RecordInput debug t it = Inr it \<and> RecordInputs debug ts it = Inr it"
    by (simp add: RecordInput_def RecordInputs_no_output)
  have b: "num_input_events it = 0 \<longrightarrow> SelfInputTime it = Some 0"
    by (simp add: SelfInputTime_def)
  have d: "Iterator_ctor p ds = Inr it \<longrightarrow>
        RecordInputs debug ts it = Inr it \<and> SelfInputTime it = Some 0
        \<and> (\<exists>it1 ctx1. GetNext_calls debug [c] it ctx = Inr (it1, ctx1)
                       \<and> SelfInputTime it1 = Some 0)"
  proof
    assume ctor: "Iterator_ctor p ds = Inr it"
    note fr = Iterator_ctor_fresh [OF ctor]
    obtain s it' ctx' where e: "EnsureModelThreadStarted ctx it = (s, it', ctx')"
      by (cases "EnsureModelThreadStarted ctx it") auto
    note ef = EnsureModelThreadStarted_frame [OF e]
    have g: "GetNext_calls debug [c] it ctx = Inr (RecordOutput (now_nanos_out c) it', ctx')"
      using e ef fr by (simp add: GetNextInternal_def RecordInput_def)
    have "SelfInputTime (RecordOutput (now_nanos_out c) it') = Some 0"
      using ef fr by (simp add: SelfInputTime_def RecordOutput_def)
    then show "RecordInputs debug ts it = Inr it \<and> SelfInputTime it = Some 0
        \<and> (\<exists>it1 ctx1. GetNext_calls debug [c] it ctx = Inr (it1, ctx1)
                       \<and> SelfInputTime it1 = Some 0)"
      using fr g by (simp add: RecordInputs_no_output SelfInputTime_def)
  qed
  show ?thesis using a b d SelfInputTime_not_None by blast
qed

theorem RecordInput_before_first_output_witness:
  "Iterator_ctor example_port example_dataset
   = Inr example_new_iterator
   \<and> RecordInput True 7
     example_new_iterator
   = Inr example_new_iterator
   \<and> RecordInputs True [7, 9]
     example_new_iterator
   = Inr example_new_iterator
   \<and> SelfInputTime
     example_new_iterator = Some 0"
  using RecordInput_before_first_output
    [of "example_new_iterator" True 7 "[7, 9]"
        "example_port" "example_dataset"
        "example_call 10 20" "\<lparr>started = []\<rparr>"]
  by (auto simp add: Iterator_ctor_def double_eval)

section \<open>Starting the threads\<close>

lemma EnsureModelThreadStarted_started:
  "EnsureModelThreadStarted ctx it = (s, it', ctx') \<Longrightarrow>
     started ctx' = started ctx @ new_threads it
     \<and> model_thread it' \<noteq> None \<and> metrics_thread it' \<noteq> None"
  by (auto simp: EnsureModelThreadStarted_def StartThread_def Let_def new_threads_def
      split: if_splits)

lemma EnsureModelThreadStarted_again:
  "model_thread it \<noteq> None \<Longrightarrow> metrics_thread it \<noteq> None \<Longrightarrow>
     EnsureModelThreadStarted ctx it = (OK, it, ctx)"
  by (auto simp add: EnsureModelThreadStarted_def)

lemma GetNextInternal_started:
  assumes "GetNextInternal debug c it ctx = Inr (s, it', ctx')"
  shows "started ctx' = started ctx @ new_threads it
         \<and> model_thread it' \<noteq> None \<and> metrics_thread it' \<noteq> None"
proof -
  obtain s0 it1 ctx1 where e: "EnsureModelThreadStarted ctx it = (s0, it1, ctx1)"
    by (cases "EnsureModelThreadStarted ctx it") auto
  note st = EnsureModelThreadStarted_started [OF e]
    and fr = EnsureModelThreadStarted_frame [OF e]
  show ?thesis using assms e st fr
    by (auto simp: GetNextInternal_def RecordInput_def RecordOutput_def
        split: if_splits sum.splits)
qed

lemma GetNext_calls_started:
  "GetNext_calls debug cs it ctx = Inr (it', ctx') \<Longrightarrow>
     started ctx' = started ctx @ (if cs = [] then [] else new_threads it)"
proof (induction cs arbitrary: it ctx)
  case Nil
  then show ?case by simp
next
  case (Cons c cs)
  from Cons.prems obtain s it1 ctx1
    where g: "GetNextInternal debug c it ctx = Inr (s, it1, ctx1)"
      and r: "GetNext_calls debug cs it1 ctx1 = Inr (it', ctx')"
    by (auto split: sum.splits)
  note st = GetNextInternal_started [OF g]
  have "new_threads it1 = []" using st by (simp add: new_threads_def)
  then show ?case using Cons.IH [OF r] st by simp
qed

text \<open>
  C8. A second call of \<open>EnsureModelThreadStarted\<close> changes nothing, and neither does a
  call on an iterator that has both threads. A new iterator has no thread. After any
  sequence of calls of \<open>GetNextInternal\<close> on a new iterator, the threads started are
  none if there was no call, and otherwise \<open>tf_data_model\<close> and \<open>tf_data_metrics\<close>, once
  each; from any iterator, the threads started are those it did not have. Outside a
  debug build every sequence of calls returns.
\<close>

theorem threads_started_once:
  "(\<forall>s it1 ctx1. EnsureModelThreadStarted ctx it = (s, it1, ctx1) \<longrightarrow>
       EnsureModelThreadStarted ctx1 it1 = (OK, it1, ctx1))
   \<and> (model_thread it \<noteq> None \<and> metrics_thread it \<noteq> None \<longrightarrow>
       EnsureModelThreadStarted ctx it = (OK, it, ctx))
   \<and> (Iterator_ctor p ds = Inr it \<longrightarrow> model_thread it = None \<and> metrics_thread it = None)
   \<and> (\<forall>it' ctx'. Iterator_ctor p ds = Inr it
         \<and> GetNext_calls debug cs it ctx = Inr (it', ctx') \<longrightarrow>
       started ctx'
         = started ctx @ (if cs = [] then [] else [''tf_data_model'', ''tf_data_metrics'']))
   \<and> (\<forall>it' ctx'. GetNext_calls debug cs it ctx = Inr (it', ctx') \<longrightarrow>
       started ctx' = started ctx @ (if cs = [] then [] else new_threads it))
   \<and> (\<forall>f. GetNext_calls False cs it ctx \<noteq> Inl f)"
proof -
  have a: "\<forall>s it1 ctx1. EnsureModelThreadStarted ctx it = (s, it1, ctx1) \<longrightarrow>
       EnsureModelThreadStarted ctx1 it1 = (OK, it1, ctx1)"
    using EnsureModelThreadStarted_started EnsureModelThreadStarted_again by blast
  have c: "Iterator_ctor p ds = Inr it \<longrightarrow> model_thread it = None \<and> metrics_thread it = None"
    using Iterator_ctor_fresh by blast
  have d: "\<forall>it' ctx'. Iterator_ctor p ds = Inr it
         \<and> GetNext_calls debug cs it ctx = Inr (it', ctx') \<longrightarrow>
       started ctx'
         = started ctx @ (if cs = [] then [] else [''tf_data_model'', ''tf_data_metrics''])"
  proof (intro allI impI)
    fix it' ctx'
    assume h: "Iterator_ctor p ds = Inr it \<and> GetNext_calls debug cs it ctx = Inr (it', ctx')"
    then have "new_threads it = [''tf_data_model'', ''tf_data_metrics'']"
      using Iterator_ctor_fresh [of p ds it] by (simp add: new_threads_def)
    then show "started ctx'
         = started ctx @ (if cs = [] then [] else [''tf_data_model'', ''tf_data_metrics''])"
      using GetNext_calls_started [of debug cs it ctx it' ctx'] h by simp
  qed
  have e: "\<forall>it' ctx'. GetNext_calls debug cs it ctx = Inr (it', ctx') \<longrightarrow>
       started ctx' = started ctx @ (if cs = [] then [] else new_threads it)"
    using GetNext_calls_started by blast
  show ?thesis
    using a c d e EnsureModelThreadStarted_again GetNext_calls_release_returns by blast
qed

theorem threads_started_once_witness:
  "Iterator_ctor example_port example_dataset
   = Inr example_new_iterator
   \<and> (\<exists>it'. GetNext_calls False
        [example_call 10 20,
         example_call 30 40,
         example_call 50 60]
        example_new_iterator \<lparr>started = []\<rparr>
      = Inr (it', \<lparr>started = [''tf_data_model'', ''tf_data_metrics'']\<rparr>))"
  using threads_started_once
    [of "\<lparr>started = []\<rparr>" "example_new_iterator"
        "example_port" "example_dataset" False
        "[example_call 10 20,
          example_call 30 40,
          example_call 50 60]"]
  by (simp add: Iterator_ctor_def double_eval GetNextInternal_def EnsureModelThreadStarted_def
      StartThread_def RecordInput_def RecordOutput_def)


section \<open>The optimization thread\<close>

lemma model_input_times_append:
  "model_input_times (as @ bs) = model_input_times as @ model_input_times bs"
  by (induction as rule: model_input_times.induct) simp_all

lemma passes_append: "passes (as @ bs) = passes as + passes bs"
  by (simp add: passes_def)

lemma ModelThread_step_model_input_times:
  "model_input_times (fst (ModelThread_step ob l))
     = replicate (passes (fst (ModelThread_step ob l))) 0"
  by (cases "mt_pc l") (simp_all add: ModelThread_step_def passes_def)

lemma ModelThread_run_model_input_times:
  "model_input_times (fst (ModelThread_run obs l))
     = replicate (passes (fst (ModelThread_run obs l))) 0"
proof (induction obs arbitrary: l)
  case Nil
  show ?case by (simp add: passes_def)
next
  case (Cons ob obs)
  show ?case
    using Cons.IH [of "snd (ModelThread_step ob l)"] ModelThread_step_model_input_times [of ob l]
    by (simp add: split_beta model_input_times_append passes_append replicate_add)
qed

text \<open>
  C2. At the pass, the thread calls \<open>SelfInputTime\<close> on the iterator as it is then, and
  it calls \<open>Optimize\<close> with the algorithm of the dataset, the two budgets of the iterator
  and 0 for \<open>model_input_time\<close>. In every run, from any place, every \<open>model_input_time\<close>
  handed to \<open>Optimize\<close> is 0.
\<close>

theorem Optimize_gets_zero_model_input_time:
  "(mt_pc l = MT_Optimize \<longrightarrow>
      fst (ModelThread_step ob l) =
        [CallSelfInputTime (SelfInputTime (obs_it ob)),
         Optimize (ds_algorithm (dataset (obs_it ob))) (cpu_budget (obs_it ob))
           (ram_budget (obs_it ob)) 0])
   \<and> model_input_times (fst (ModelThread_run obs l))
       = replicate (passes (fst (ModelThread_run obs l))) 0"
  using ModelThread_run_model_input_times by (simp add: ModelThread_step_def)

text \<open>
  An iterator with 2 input events and an input time of 30: the self input time is 15,
  and \<open>Optimize\<close> is given 0.
\<close>

theorem Optimize_gets_zero_model_input_time_witness:
  "fst (ModelThread_step
          (example_observation False 5000)
          (ModelThread_init\<lparr>mt_pc := MT_Optimize\<rparr>))
   = [CallSelfInputTime (Some 15), Optimize HILL_CLIMB 8 512 0]"
  using Optimize_gets_zero_model_input_time
    [of "ModelThread_init\<lparr>mt_pc := MT_Optimize\<rparr>"
        "example_observation False 5000" "[]"]
  by (simp add: SelfInputTime_def double_eval)

lemma kOptimizationPeriodThresholdMs_eq: "kOptimizationPeriodThresholdMs = 60000"
  by (simp add: kOptimizationPeriodThresholdMs_def kSecondsToMillis_def)

lemma next_optimization_period_ms_small:
  assumes "k \<le> 12"
  shows "next_optimization_period_ms (word_of_nat (min (10 * 2 ^ k) 60000))
          = word_of_nat (min (10 * 2 ^ Suc k) 60000)"
proof -
  have "k = 0 \<or> k = 1 \<or> k = 2 \<or> k = 3 \<or> k = 4 \<or> k = 5 \<or> k = 6 \<or> k = 7 \<or> k = 8
          \<or> k = 9 \<or> k = 10 \<or> k = 11 \<or> k = 12"
    using assms by arith
  then show ?thesis
    by (elim disjE)
       (simp_all add: next_optimization_period_ms_def kOptimizationPeriodThresholdMs_eq
          std_min_def word_sless_alt)
qed

lemma min_at_threshold: "13 \<le> k \<Longrightarrow> min (10 * 2 ^ k) (60000::nat) = 60000"
proof -
  assume "13 \<le> k"
  then have "(2::nat) ^ 13 \<le> 2 ^ k" by (rule power_increasing) simp
  then show ?thesis by simp
qed

lemma next_optimization_period_ms_doubles:
  "next_optimization_period_ms (word_of_nat (min (10 * 2 ^ k) 60000))
     = word_of_nat (min (10 * 2 ^ Suc k) 60000)"
proof (cases "k \<le> 12")
  case True
  then show ?thesis by (rule next_optimization_period_ms_small)
next
  case False
  then have "13 \<le> k" "13 \<le> Suc k" by simp_all
  then show ?thesis
    by (simp only: min_at_threshold)
       (simp add: next_optimization_period_ms_def kOptimizationPeriodThresholdMs_eq)
qed

lemma ModelThread_step_period:
  "optimization_period_ms l = word_of_nat (min (10 * 2 ^ k) 60000) \<Longrightarrow>
   optimization_period_ms (snd (ModelThread_step ob l))
     = word_of_nat (min (10 * 2 ^ (k + passes (fst (ModelThread_step ob l)))) 60000)"
  by (cases "mt_pc l")
     (simp_all add: ModelThread_step_def passes_def next_optimization_period_ms_doubles
        del: power_Suc)

lemma ModelThread_run_period:
  "optimization_period_ms l = word_of_nat (min (10 * 2 ^ k) 60000) \<Longrightarrow>
   optimization_period_ms (snd (ModelThread_run obs l))
     = word_of_nat (min (10 * 2 ^ (k + passes (fst (ModelThread_run obs l)))) 60000)"
proof (induction obs arbitrary: l k)
  case Nil
  then show ?case by (simp add: passes_def)
next
  case (Cons ob obs)
  from Cons.IH [OF ModelThread_step_period [OF Cons.prems, of ob]]
  show ?case by (simp add: split_beta passes_append add.assoc)
qed

lemma sint_word_of_nat_small: "m \<le> 60000 \<Longrightarrow> sint (word_of_nat m :: int64) = int m"
proof -
  assume "m \<le> 60000"
  then have "int m < 2 ^ 63" "- (2 ^ 63) \<le> int m" by simp_all
  then show ?thesis by (simp add: signed_of_nat signed_take_bit_int_eq_self)
qed

lemma clock_ms_sint:
  "sint ((x::uint64) div kMillisToMicros) = uint x div 1000
   \<and> 0 \<le> uint x div 1000 \<and> uint x div 1000 < 2 ^ 55"
proof -
  have u: "uint (x div kMillisToMicros) = uint x div 1000"
    by (simp add: kMillisToMicros_def uint_div_distrib)
  have "uint x < 2 ^ 64" using uint_lt2p [of x] by simp
  then have "uint x \<le> 18446744073709551615" by simp
  then have "uint x div 1000 \<le> 18446744073709551615 div 1000" by (rule zdiv_mono1) simp
  then have b: "uint x div 1000 < 2 ^ 55" by simp
  have "0 \<le> uint x" by (rule uint_ge_0)
  then have nn: "0 \<le> uint x div 1000" by (simp add: pos_imp_zdiv_nonneg_iff)
  have "sint (x div kMillisToMicros) = signed_take_bit 63 (uint (x div kMillisToMicros))"
    by (simp add: sint_uint)
  also have "\<dots> = uint x div 1000"
    unfolding u using b nn by (intro signed_take_bit_int_eq_self) simp_all
  finally show ?thesis using b nn by simp
qed

lemma sint_word_of_nat_period:
  "sint (word_of_nat (min (10 * 2 ^ n) 60000) :: int64) = int (min (10 * 2 ^ n) 60000)"
  by (rule sint_word_of_nat_small) simp

lemma wait_is_period:
  fixes x :: uint64 and n :: nat
  shows "word_sless (x div kMillisToMicros)
           (x div kMillisToMicros + word_of_nat (min (10 * 2 ^ n) 60000))"
proof -
  define c where "c = x div kMillisToMicros"
  define p :: int64 where "p = word_of_nat (min (10 * 2 ^ n) 60000)"
  have sp: "sint p = int (min (10 * 2 ^ n) 60000)"
    unfolding p_def by (rule sint_word_of_nat_period)
  have "10 \<le> min (10 * 2 ^ n) (60000::nat)" by simp
  then have pl: "10 \<le> sint p" "sint p \<le> 60000" using sp by simp_all
  have sc: "0 \<le> sint c" "sint c < 2 ^ 55" using clock_ms_sint [of x] by (simp_all add: c_def)
  have "sint (c + p) = signed_take_bit 63 (sint c + sint p)"
    by (simp add: sint_word_ariths)
  also have "\<dots> = sint c + sint p"
    using pl sc by (intro signed_take_bit_int_eq_self) simp_all
  finally have "sint c < sint (c + p)" using pl by simp
  then show ?thesis by (simp add: word_sless_alt c_def p_def)
qed

lemma clock_at_least_10:
  "10000 \<le> (x::uint64) \<Longrightarrow> \<not> word_sless (x div kMillisToMicros) 10"
proof -
  assume "10000 \<le> x"
  then have "10000 \<le> uint x" by (simp add: word_le_def)
  then have "10 \<le> uint x div 1000" by simp
  then show ?thesis using clock_ms_sint [of x] by (simp add: word_sless_alt)
qed

lemma first_pass_without_wait:
  assumes "10000 \<le> NowMicros ob1" "\<not> cancelled (obs_it ob2)"
  shows "ModelThread_run [ob1, ob2] ModelThread_init
         = ([], ModelThread_init\<lparr>mt_current_time_ms := NowMicros ob1 div kMillisToMicros,
                                   mt_pc := MT_Optimize\<rparr>)"
  using assms clock_at_least_10 [OF assms(1)]
  by (simp add: ModelThread_step_def ModelThread_init_def)

lemma Optimized_after_a_pass:
  "mt_pc (snd (ModelThread_run obs l)) = MT_Optimized \<Longrightarrow> mt_pc l \<noteq> MT_Optimized \<Longrightarrow>
     1 \<le> passes (fst (ModelThread_run obs l))"
proof (induction obs arbitrary: l)
  case Nil
  then show ?case by simp
next
  case (Cons ob obs)
  show ?case
  proof (cases "mt_pc (snd (ModelThread_step ob l)) = MT_Optimized")
    case True
    then have "mt_pc l = MT_Optimize" using Cons.prems(2)
      by (cases "mt_pc l") (auto simp: ModelThread_step_def split: if_splits)
    then have "passes (fst (ModelThread_step ob l)) = 1"
      by (simp add: ModelThread_step_def passes_def)
    then show ?thesis by (simp add: split_beta passes_append)
  next
    case False
    from Cons.IH [OF _ False] Cons.prems(1)
    have "1 \<le> passes (fst (ModelThread_run obs (snd (ModelThread_step ob l))))"
      by (simp add: split_beta)
    then show ?thesis by (simp add: split_beta passes_append)
  qed
qed

lemma wait_after_pass:
  assumes "optimization_period_ms l = word_of_nat (min (10 * 2 ^ n) 60000)"
    and "mt_pc l = MT_Optimized" and "\<not> cancelled (obs_it ob4)"
  shows "fst (ModelThread_run [ob3, ob4] l)
          = [FlushMetrics, WaitFor (word_of_nat (min (10 * 2 ^ n) 60000))]"
  using assms wait_is_period [of "NowMicros ob3" n]
  by (simp add: ModelThread_step_def)

text \<open>
  C4, as stated, fails. The claim is that the first period between wakeups is 10
  milliseconds, the second 20, and so on. On a clock that shows 1000 milliseconds when
  the thread starts, the first pass is made with no wait before it, and the wait that
  follows it is of 20 milliseconds: \<open>last_optimization_ms\<close> starts at 0, so the test of
  the inner loop fails at once, and the period is doubled before the first wait is
  computed.
\<close>

theorem first_wait_is_20_not_10:
  "fst (ModelThread_run
      [example_observation False 1000000, example_observation False 1000000,
       example_observation False 1000000, example_observation False 1005000,
       example_observation False 1005000]
      ModelThread_init)
   = [CallSelfInputTime (Some 15), Optimize HILL_CLIMB 8 512 0, FlushMetrics, WaitFor 20]
   \<and> min (10 * 2 ^ (1 - 1)) 60000 = (10 :: nat)"
  by (simp add: ModelThread_step_def ModelThread_init_def kMillisToMicros_def
      word_sless_alt SelfInputTime_def double_eval next_optimization_period_ms_def
      kOptimizationPeriodThresholdMs_eq std_min_def)

text \<open>
  C4, amended. In every run of the thread from its start, the period is
  \<open>min (10 * 2 ^ n) 60000\<close> milliseconds once \<open>n\<close> passes have been made: it starts at 10,
  is doubled by each pass, and is 60000 from the thirteenth pass on. Where the clock
  shows at least 10 milliseconds at the start and the flag is not set, the first pass
  is made with no wait before it. After pass \<open>k\<close>, where the flag is not set, the thread
  flushes and then waits for \<open>min (10 * 2 ^ k) 60000\<close> milliseconds: the waits are of 20,
  40, 80 milliseconds and so on, up to 60000.
\<close>

theorem optimization_waits_double_up_to_threshold:
  "sint (optimization_period_ms (snd (ModelThread_run obs ModelThread_init)))
     = min (10 * 2 ^ passes (fst (ModelThread_run obs ModelThread_init))) 60000
   \<and> (10000 \<le> NowMicros ob1 \<and> \<not> cancelled (obs_it ob2) \<longrightarrow>
        ModelThread_run [ob1, ob2] ModelThread_init
         = ([], ModelThread_init\<lparr>mt_current_time_ms := NowMicros ob1 div kMillisToMicros,
                                   mt_pc := MT_Optimize\<rparr>))
   \<and> (\<forall>l k. l = snd (ModelThread_run obs ModelThread_init)
          \<and> k = passes (fst (ModelThread_run obs ModelThread_init))
          \<and> mt_pc l = MT_Optimized \<and> \<not> cancelled (obs_it ob4) \<longrightarrow>
        1 \<le> k
        \<and> fst (ModelThread_run [ob3, ob4] l)
            = [FlushMetrics, WaitFor (word_of_nat (min (10 * 2 ^ k) 60000))])"
proof -
  have "optimization_period_ms ModelThread_init = word_of_nat (min (10 * 2 ^ 0) 60000)"
    by (simp add: ModelThread_init_def)
  from ModelThread_run_period [OF this, of obs]
  have p: "optimization_period_ms (snd (ModelThread_run obs ModelThread_init))
     = word_of_nat (min (10 * 2 ^ passes (fst (ModelThread_run obs ModelThread_init))) 60000)"
    by simp
  then have a: "sint (optimization_period_ms (snd (ModelThread_run obs ModelThread_init)))
     = min (10 * 2 ^ passes (fst (ModelThread_run obs ModelThread_init))) 60000"
    by (simp add: sint_word_of_nat_small of_nat_min)
  have i: "mt_pc ModelThread_init \<noteq> MT_Optimized" by (simp add: ModelThread_init_def)
  show ?thesis
    using a first_pass_without_wait [of ob1 ob2] wait_after_pass [OF p, of ob4 ob3]
      Optimized_after_a_pass [OF _ i, of obs]
    by blast
qed

text \<open>
  A clock at 1000 milliseconds: the first pass is made at once, and the wait after it is
  of 20 milliseconds.
\<close>

theorem optimization_waits_double_up_to_threshold_witness:
  "ModelThread_run [example_observation False 1000000, example_observation False 1000000]
      ModelThread_init
    = ([], ModelThread_init\<lparr>mt_current_time_ms := 1000, mt_pc := MT_Optimize\<rparr>)
   \<and> passes (fst (ModelThread_run
      [example_observation False 1000000, example_observation False 1000000,
       example_observation False 1000000]
      ModelThread_init)) = 1
   \<and> fst (ModelThread_run
        [example_observation False 1005000, example_observation False 1005000]
        (snd (ModelThread_run
          [example_observation False 1000000, example_observation False 1000000,
           example_observation False 1000000]
          ModelThread_init)))
      = [FlushMetrics, WaitFor 20]"
  using optimization_waits_double_up_to_threshold
    [of "[example_observation False 1000000, example_observation False 1000000,
          example_observation False 1000000]"
        "example_observation False 1000000" "example_observation False 1000000"
        "example_observation False 1005000" "example_observation False 1005000"]
  by (simp add: ModelThread_step_def ModelThread_init_def passes_def kMillisToMicros_def
      word_sless_alt SelfInputTime_def double_eval next_optimization_period_ms_def
      kOptimizationPeriodThresholdMs_eq std_min_def)


section \<open>The metrics thread\<close>

lemma MetricsThread_step_period:
  "recording_period_ms (snd (MetricsThread_step ob l)) = recording_period_ms l"
  by (cases "mx_pc l") (simp_all add: MetricsThread_step_def)

lemma MetricsThread_run_period:
  "recording_period_ms (snd (MetricsThread_run obs l)) = recording_period_ms l"
proof (induction obs arbitrary: l)
  case Nil
  show ?case by simp
next
  case (Cons ob obs)
  show ?case using Cons.IH [of "snd (MetricsThread_step ob l)"]
    by (simp add: split_beta MetricsThread_step_period)
qed

text \<open>
  C5. In every run of the thread from its start, whatever the clock and the flag show
  and however many times it has flushed, the recording period is 10 milliseconds; and
  where the thread, at the test of its inner loop, goes on to wait, it waits until 10
  milliseconds after the last recording.
\<close>

theorem recording_period_is_10:
  "recording_period_ms (snd (MetricsThread_run obs MetricsThread_init)) = 10
   \<and> (\<forall>l. l = snd (MetricsThread_run obs MetricsThread_init) \<and> mx_pc l = MX_Check
          \<and> \<not> cancelled (obs_it ob)
          \<and> word_sless (mx_current_time_ms l) (last_recording_time_ms l + 10) \<longrightarrow>
        fst (MetricsThread_step ob l)
          = [WaitFor (last_recording_time_ms l + 10 - mx_current_time_ms l)])"
proof -
  have "recording_period_ms (snd (MetricsThread_run obs MetricsThread_init)) = 10"
    by (simp add: MetricsThread_run_period MetricsThread_init_def)
  then show ?thesis by (auto simp: MetricsThread_step_def)
qed

text \<open>
  A run that flushes once, at 1000 milliseconds, and is back at the test: the period is
  10 and the thread waits for 10 milliseconds.
\<close>

theorem recording_period_is_10_witness:
  "fst (MetricsThread_run
      [example_observation False 1000000, example_observation False 1000000,
       example_observation False 1000000, example_observation False 1004000]
      MetricsThread_init)
    = [FlushMetrics, PrintMetrics, CollectMetrics, WaitFor 10]
   \<and> recording_period_ms (snd (MetricsThread_run
      [example_observation False 1000000, example_observation False 1000000,
       example_observation False 1000000]
      MetricsThread_init)) = 10"
  using recording_period_is_10
    [of "[example_observation False 1000000, example_observation False 1000000,
          example_observation False 1000000]"
        "example_observation False 1004000"]
  by (simp add: MetricsThread_step_def MetricsThread_init_def kMillisToMicros_def
      word_sless_alt)

section \<open>Cancellation\<close>

lemma ModelThread_run_returned:
  "mt_pc l = MT_Returned \<Longrightarrow> ModelThread_run obs l = ([], l)"
  by (induction obs) (simp_all add: ModelThread_step_def)

lemma MetricsThread_run_returned:
  "mx_pc l = MX_Returned \<Longrightarrow> MetricsThread_run obs l = ([], l)"
  by (induction obs) (simp_all add: MetricsThread_step_def)

lemma two_or_more: "2 \<le> length xs \<Longrightarrow> \<exists>a b ys. xs = a # b # ys"
  by (cases xs; cases "tl xs") auto

lemma three_or_more: "3 \<le> length xs \<Longrightarrow> \<exists>a b c ys. xs = a # b # c # ys"
  by (cases xs; cases "tl xs"; cases "tl (tl xs)") auto

lemma ModelThread_cancelled_returns:
  assumes c: "\<forall>ob\<in>set obs. cancelled (obs_it ob)"
    and pc: "mt_pc l = MT_Start \<or> mt_pc l = MT_Check \<or> mt_pc l = MT_Wait"
    and len: "2 \<le> length obs"
  shows "fst (ModelThread_run obs l) = [] \<and> mt_pc (snd (ModelThread_run obs l)) = MT_Returned"
proof -
  from two_or_more [OF len] obtain a b ys where obs: "obs = a # b # ys" by blast
  have ca: "cancelled (obs_it a)" and cb: "cancelled (obs_it b)" using c obs by auto
  from pc show ?thesis
  proof (elim disjE)
    assume "mt_pc l = MT_Start"
    then show ?thesis
      using ca cb by (simp add: obs ModelThread_step_def ModelThread_run_returned)
  next
    assume "mt_pc l = MT_Check"
    then show ?thesis
      using ca cb by (simp add: obs ModelThread_step_def ModelThread_run_returned)
  next
    assume "mt_pc l = MT_Wait"
    then show ?thesis
      using ca cb by (simp add: obs ModelThread_step_def ModelThread_run_returned)
  qed
qed

lemma ModelThread_cancelled_mid_pass:
  assumes c: "\<forall>ob\<in>set obs. cancelled (obs_it ob)"
    and len: "3 \<le> length obs"
  shows "mt_pc (snd (ModelThread_run obs l)) = MT_Returned
         \<and> passes (fst (ModelThread_run obs l)) \<le> 1"
proof -
  from three_or_more [OF len] obtain a b d ys where obs: "obs = a # b # d # ys" by blast
  have "cancelled (obs_it a)" "cancelled (obs_it b)" "cancelled (obs_it d)"
    using c obs by auto
  then show ?thesis
    by (cases "mt_pc l")
       (simp_all add: obs ModelThread_step_def ModelThread_run_returned passes_def)
qed

lemma MetricsThread_cancelled_returns:
  assumes c: "\<forall>ob\<in>set obs. cancelled (obs_it ob)"
    and len: "3 \<le> length obs"
  shows "fst (MetricsThread_run obs l) = []
         \<and> mx_pc (snd (MetricsThread_run obs l)) = MX_Returned"
proof -
  from three_or_more [OF len] obtain a b d ys where obs: "obs = a # b # d # ys" by blast
  have "cancelled (obs_it a)" "cancelled (obs_it b)" "cancelled (obs_it d)"
    using c obs by auto
  then show ?thesis
    by (cases "mx_pc l") (simp_all add: obs MetricsThread_step_def MetricsThread_run_returned)
qed

text \<open>
  C7. The destructor leaves the flag set, and nothing clears it: take a run in which
  every observation shows the flag set. A step is the thread going on: out of \<open>wait_for\<close> by
  the notification or at the end of the time, or past a test.
  \<^item> The optimization thread, at the test of its inner loop, returns in one step; before
    its first reading of the clock or inside \<open>wait_for\<close>, it returns in two steps: it
    reads the clock, tests and returns. It calls nothing on the way.
  \<^item> The optimization thread, in the middle of a pass, returns within three steps, and
    \<open>Optimize\<close> is called at most once, in the pass under way.
  \<^item> The metrics thread, wherever it is, returns within three steps (out of \<open>wait_for\<close>,
    the test, the second reading of the flag) and calls nothing on the way.
  \<^item> A thread that has returned calls nothing more, whatever is observed later.
\<close>

theorem cancelled_threads_return:
  assumes "\<forall>ob\<in>set obs. cancelled (obs_it ob)"
  shows "cancelled (Iterator_dtor it)
       \<and> (mt_pc l = MT_Check \<and> 1 \<le> length obs \<longrightarrow>
            fst (ModelThread_run obs l) = []
            \<and> mt_pc (snd (ModelThread_run obs l)) = MT_Returned)
       \<and> ((mt_pc l = MT_Start \<or> mt_pc l = MT_Wait) \<and> 2 \<le> length obs \<longrightarrow>
            fst (ModelThread_run obs l) = []
            \<and> mt_pc (snd (ModelThread_run obs l)) = MT_Returned)
       \<and> (3 \<le> length obs \<longrightarrow>
            mt_pc (snd (ModelThread_run obs l)) = MT_Returned
            \<and> passes (fst (ModelThread_run obs l)) \<le> 1)
       \<and> (3 \<le> length obs \<longrightarrow>
            fst (MetricsThread_run obs m) = []
            \<and> mx_pc (snd (MetricsThread_run obs m)) = MX_Returned)
       \<and> (mt_pc l = MT_Returned \<longrightarrow> ModelThread_run later l = ([], l))
       \<and> (mx_pc m = MX_Returned \<longrightarrow> MetricsThread_run later m = ([], m))"
proof -
  have a: "mt_pc l = MT_Check \<and> 1 \<le> length obs \<longrightarrow>
            fst (ModelThread_run obs l) = []
            \<and> mt_pc (snd (ModelThread_run obs l)) = MT_Returned"
  proof
    assume h: "mt_pc l = MT_Check \<and> 1 \<le> length obs"
    then obtain ob ys where obs: "obs = ob # ys" by (cases obs) auto
    then have "cancelled (obs_it ob)" using assms by simp
    then show "fst (ModelThread_run obs l) = []
            \<and> mt_pc (snd (ModelThread_run obs l)) = MT_Returned"
      using h by (simp add: obs ModelThread_step_def ModelThread_run_returned)
  qed
  have b: "(mt_pc l = MT_Start \<or> mt_pc l = MT_Wait) \<and> 2 \<le> length obs \<longrightarrow>
            fst (ModelThread_run obs l) = []
            \<and> mt_pc (snd (ModelThread_run obs l)) = MT_Returned"
    using ModelThread_cancelled_returns [OF assms, of l] by blast
  have d: "cancelled (Iterator_dtor it)" by (simp add: Iterator_dtor_def)
  show ?thesis
    using a b d ModelThread_cancelled_mid_pass [OF assms, of l]
      MetricsThread_cancelled_returns [OF assms, of m]
      ModelThread_run_returned [of l later] MetricsThread_run_returned [of m later]
    by blast
qed

text \<open>
  Both threads inside \<open>wait_for\<close> when the flag is set: both return, and neither calls
  \<open>Optimize\<close> or \<open>FlushMetrics\<close>.
\<close>

theorem cancelled_threads_return_witness:
  "fst (ModelThread_run
      [example_observation True 1000000, example_observation True 1000000,
       example_observation True 1000000]
      (ModelThread_init\<lparr>mt_pc := MT_Wait\<rparr>)) = []
   \<and> mt_pc (snd (ModelThread_run
      [example_observation True 1000000, example_observation True 1000000,
       example_observation True 1000000]
      (ModelThread_init\<lparr>mt_pc := MT_Wait\<rparr>))) = MT_Returned
   \<and> fst (MetricsThread_run
      [example_observation True 1000000, example_observation True 1000000,
       example_observation True 1000000]
      (MetricsThread_init\<lparr>mx_pc := MX_Wait\<rparr>)) = []
   \<and> mx_pc (snd (MetricsThread_run
      [example_observation True 1000000, example_observation True 1000000,
       example_observation True 1000000]
      (MetricsThread_init\<lparr>mx_pc := MX_Wait\<rparr>))) = MX_Returned"
  using cancelled_threads_return
    [of "[example_observation True 1000000, example_observation True 1000000,
          example_observation True 1000000]"
        example_new_iterator
        "ModelThread_init\<lparr>mt_pc := MT_Wait\<rparr>" "MetricsThread_init\<lparr>mx_pc := MX_Wait\<rparr>"
        "[]"]
  by (simp add: ModelThread_init_def MetricsThread_init_def)


section \<open>The budgets of the iterator\<close>

lemma floor_log2_less:
  assumes "0 < q" "q < 2 ^ N"
  shows "floor_log2 q < int N"
proof (rule ccontr)
  assume "\<not> floor_log2 q < int N"
  then have "int N \<le> floor_log2 q" by simp
  then have "(2::real) powi int N \<le> 2 powi floor_log2 q"
    by (intro power_int_increasing) auto
  then have "2 ^ N \<le> pow2 (floor_log2 q)" by (simp add: pow2_powi)
  with floor_log2_le [OF assms(1)] assms(2) show False by linarith
qed

lemma round_half_even_of_int: "round_half_even (of_int z) = z"
  by (simp add: round_half_even_def)

lemma round_to_double_exact:
  assumes "q \<noteq> 0" "floor_log2 \<bar>q\<bar> \<le> 52"
    and "\<bar>q\<bar> * 2 ^ nat (52 - floor_log2 \<bar>q\<bar>) = of_int z"
  shows "round_to_double q = q"
proof -
  define j where "j = nat (52 - floor_log2 \<bar>q\<bar>)"
  have p: "pow2 (floor_log2 \<bar>q\<bar> - 52) = 1 / 2 ^ j"
    using assms(2) by (auto simp: pow2_def j_def)
  have "\<bar>q\<bar> / pow2 (floor_log2 \<bar>q\<bar> - 52) = of_int z"
    using assms(3) by (simp add: p j_def)
  then have "round_to_double q = sgn q * of_int z * (1 / 2 ^ j)"
    using assms(1) by (simp add: round_to_double_def Let_def round_half_even_of_int p)
  also have "\<dots> = sgn q * (\<bar>q\<bar> * 2 ^ j) * (1 / 2 ^ j)"
    using assms(3) by (simp add: j_def)
  also have "\<dots> = q" by (simp add: sgn_mult_abs)
  finally show ?thesis .
qed

lemma round_to_double_of_int:
  assumes "\<bar>n\<bar> < 2 ^ 53"
  shows "round_to_double (of_int n) = of_int n"
proof (cases "n = 0")
  case True
  then show ?thesis by (simp add: round_to_double_def)
next
  case False
  let ?q = "of_int n :: real"
  have "0 < \<bar>?q\<bar>" using False by simp
  moreover have "\<bar>?q\<bar> < 2 ^ 53" using assms
    by (metis of_int_abs of_int_less_iff of_int_numeral of_int_power)
  ultimately have "floor_log2 \<bar>?q\<bar> < 53" using floor_log2_less [of "\<bar>?q\<bar>" 53] by simp
  then have fl: "floor_log2 \<bar>?q\<bar> \<le> 52" by simp
  have "\<bar>?q\<bar> * 2 ^ nat (52 - floor_log2 \<bar>?q\<bar>) = of_int (\<bar>n\<bar> * 2 ^ nat (52 - floor_log2 \<bar>?q\<bar>))"
    by simp
  from round_to_double_exact [OF _ fl this] False show ?thesis by simp
qed

lemma round_to_double_half:
  assumes "\<bar>n\<bar> < 2 ^ 53"
  shows "round_to_double (1 / 2 * of_int n) = of_int n / 2"
proof (cases "n = 0")
  case True
  then show ?thesis by (simp add: round_to_double_def)
next
  case False
  define q :: real where "q = of_int n / 2"
  have q0: "q \<noteq> 0" using False by (simp add: q_def)
  then have pos: "0 < \<bar>q\<bar>" by simp
  have "\<bar>of_int n :: real\<bar> < 2 ^ 53" using assms
    by (metis of_int_abs of_int_less_iff of_int_numeral of_int_power)
  then have "\<bar>q\<bar> < 2 ^ 52" by (simp add: q_def)
  then have "floor_log2 \<bar>q\<bar> < 52" using floor_log2_less [OF pos, of 52] by simp
  then have fl: "floor_log2 \<bar>q\<bar> \<le> 52" and j: "1 \<le> 52 - floor_log2 \<bar>q\<bar>" by simp_all
  then obtain k where k: "nat (52 - floor_log2 \<bar>q\<bar>) = Suc k"
    by (cases "nat (52 - floor_log2 \<bar>q\<bar>)") auto
  have "\<bar>q\<bar> * 2 ^ nat (52 - floor_log2 \<bar>q\<bar>) = of_int (\<bar>n\<bar> * 2 ^ k)"
    by (simp only: k) (simp add: q_def)
  from round_to_double_exact [OF q0 fl this] show ?thesis by (simp add: q_def)
qed

lemma double_to_int64_of_int:
  "- (2 ^ 63) \<le> n \<Longrightarrow> n < 2 ^ 63 \<Longrightarrow> double_to_int64 (of_int n) = Some (word_of_int n)"
  by (simp add: double_to_int64_def truncate_real_def)

lemma sint_range64: "- (2 ^ 63) \<le> sint (x::int64) \<and> sint x < 2 ^ 63"
  using sint_ge [of x] sint_lt [of x] by simp

lemma int64_to_double_exact:
  "\<bar>sint x\<bar> < 2 ^ 53 \<Longrightarrow> int64_to_double x = of_int (sint x)"
  by (simp add: int64_to_double_def round_to_double_of_int del: of_int_sint)

lemma int64_roundtrip:
  assumes "\<bar>sint x\<bar> < 2 ^ 53"
  shows "double_to_int64 (int64_to_double x) = Some x"
proof -
  have w: "word_of_int (sint x) = x" by simp
  show ?thesis
    unfolding int64_to_double_exact [OF assms]
    using sint_range64 [of x] double_to_int64_of_int [of "sint x"] w by (simp del: of_int_sint)
qed

lemma half_available_ram:
  assumes "0 \<le> sint x" "sint x < 2 ^ 53"
  shows "double_to_int64 (double_mul kRamBudgetShare (int64_to_double x))
          = Some (word_of_int (sint x div 2))"
proof -
  have a: "\<bar>sint x\<bar> < 2 ^ 53" using assms by simp
  have eq: "double_mul kRamBudgetShare (int64_to_double x) = of_int (sint x) / 2"
    unfolding double_mul_def kRamBudgetShare_def int64_to_double_exact [OF a]
    by (rule round_to_double_half [OF a])
  have tr: "truncate_real (of_int (sint x) / 2) = sint x div 2"
  proof -
    have "\<lfloor>real_of_int (sint x) / real_of_int 2\<rfloor> = sint x div 2"
      by (rule floor_divide_of_int_eq)
    then show ?thesis using assms(1) by (simp add: truncate_real_def del: of_int_sint)
  qed
  have "- (2 ^ 63) \<le> sint x div 2" "sint x div 2 < 2 ^ 63" using assms by simp_all
  then show ?thesis unfolding double_to_int64_def eq tr Let_def by simp
qed

lemma Iterator_ctor_budgets:
  assumes "ds_ram_budget ds \<noteq> 0 \<longrightarrow> \<bar>sint (ds_ram_budget ds)\<bar> < 2 ^ 53"
    and "ds_ram_budget ds = 0 \<longrightarrow> 0 \<le> sint (AvailableRam p) \<and> sint (AvailableRam p) < 2 ^ 53"
  shows "\<exists>it. Iterator_ctor p ds = Inr it
          \<and> cpu_budget it = (if ds_cpu_budget ds = 0 then scast (NumSchedulableCPUs p)
                              else ds_cpu_budget ds)
          \<and> ram_budget it = (if ds_ram_budget ds = 0
                              then word_of_int (sint (AvailableRam p) div 2)
                              else ds_ram_budget ds)"
  using assms by (auto simp: Iterator_ctor_def Let_def int64_roundtrip half_available_ram)

text \<open>No member function of the iterator writes a budget.\<close>

lemma budgets_never_written:
  "(RecordInput debug t it = Inr it1 \<longrightarrow>
      cpu_budget it1 = cpu_budget it \<and> ram_budget it1 = ram_budget it)
   \<and> cpu_budget (RecordOutput t it) = cpu_budget it
   \<and> ram_budget (RecordOutput t it) = ram_budget it
   \<and> cpu_budget (Iterator_dtor it) = cpu_budget it
   \<and> ram_budget (Iterator_dtor it) = ram_budget it
   \<and> cpu_budget (fst (snd (EnsureModelThreadStarted ctx it))) = cpu_budget it
   \<and> ram_budget (fst (snd (EnsureModelThreadStarted ctx it))) = ram_budget it"
  by (auto simp: RecordInput_def RecordOutput_def Iterator_dtor_def EnsureModelThreadStarted_def
      StartThread_def Let_def split: if_splits)

lemma GetNext_calls_budgets:
  "GetNext_calls debug cs it ctx = Inr (it', ctx') \<Longrightarrow>
     cpu_budget it' = cpu_budget it \<and> ram_budget it' = ram_budget it"
proof (induction cs arbitrary: it ctx)
  case Nil
  then show ?case by simp
next
  case (Cons c cs)
  from Cons.prems obtain s it1 ctx1
    where g: "GetNextInternal debug c it ctx = Inr (s, it1, ctx1)"
      and r: "GetNext_calls debug cs it1 ctx1 = Inr (it', ctx')"
    by (auto split: sum.splits)
  obtain s0 it0 ctx0 where e: "EnsureModelThreadStarted ctx it = (s0, it0, ctx0)"
    by (cases "EnsureModelThreadStarted ctx it") auto
  have "cpu_budget it1 = cpu_budget it \<and> ram_budget it1 = ram_budget it"
    using g e EnsureModelThreadStarted_frame [OF e]
    by (auto simp: GetNextInternal_def RecordInput_def RecordOutput_def
        split: if_splits sum.splits)
  then show ?case using Cons.IH [OF r] by simp
qed

text \<open>
  C3. The code does not keep every nonzero \<open>ram_budget\<close>. A node with \<open>cpu_budget\<close> 1
  and \<open>ram_budget\<close> \<open>2^54 + 1\<close> gives a kernel and a dataset with these budgets; the
  iterator of that dataset has \<open>cpu_budget\<close> 1 and \<open>ram_budget\<close> \<open>2^54\<close>, the double
  nearest to \<open>2^54 + 1\<close>. (By \<open>Iterator_ctor_budgets\<close> the rest of the claim holds
  where the values are below \<open>2^53\<close>: a \<open>cpu_budget\<close> of 0 becomes the number of
  processors, a \<open>ram_budget\<close> of 0 becomes half of the available memory, rounded down,
  other budgets are kept; by \<open>GetNext_calls_budgets\<close> and \<open>budgets_never_written\<close>
  the budgets of an iterator do not change.)
\<close>

theorem large_ram_budget_not_kept:
  "ModelDatasetOp_ctor [kCpuBudget \<mapsto> 1, kRamBudget \<mapsto> 18014398509481985]
     = Inr \<lparr>op_algorithm = HILL_CLIMB, op_cpu_budget = 1, op_ram_budget = 18014398509481985\<rparr>
   \<and> Iterator_ctor \<lparr>NumSchedulableCPUs = 8, AvailableRam = 1024\<rparr>
        (MakeDataset \<lparr>op_algorithm = HILL_CLIMB, op_cpu_budget = 1,
                       op_ram_budget = 18014398509481985\<rparr>)
     = Inr \<lparr>dataset = \<lparr>ds_algorithm = HILL_CLIMB, ds_cpu_budget = 1,
                         ds_ram_budget = 18014398509481985\<rparr>,
            model_thread = None, metrics_thread = None, cancelled = False,
            num_input_events = 0, input_time = 0, last_output_time = 0,
            cpu_budget = 1, ram_budget = 18014398509481984\<rparr>"
  by (simp add: ModelDatasetOp_ctor_def HasAttr_def GetAttr_def kAlgorithm_def kCpuBudget_def
      kRamBudget_def word_sle_eq Iterator_ctor_def MakeDataset_def double_eval)

end
